theory Spec2Isabelle
  imports Main "HOL-Library.AList" "HOL-Library.Sublist"
begin

section \<open>TypeDoc reflections (src/types/typedoc.ts)\<close>

text \<open>
  A \<open>Reflection\<close> is a node of the TypeDoc JSON tree. Only the fields the parser reads
  are kept: \<open>id\<close>, \<open>name\<close>, \<open>kind\<close>, \<open>kindString\<close>, \<open>children\<close> and \<open>signatures\<close>.
  JavaScript numbers holding identifiers and kind tags are integers. The parser tests
  \<open>kind\<close> and \<open>kindString\<close> before it uses them, so they are an \<open>option\<close> (\<open>None\<close> when
  the data lacks the field); for the two arrays a missing array and an empty one are
  both skipped by the parser, so they are plain lists. Signatures are indexed through
  a cast to \<open>Reflection\<close> and are therefore nodes of the same type.
\<close>

datatype Reflection = Reflection
  (id_r: int)
  (name: string)
  (kind: "int option")
  (kindString: "string option")
  (children: "Reflection list")
  (signatures: "Reflection list")

datatype ReflectionKind =
    Project | Module | Namespace | Enum | EnumMember | Variable | Function | Class
  | Interface | Constructor | Property | Method | CallSignature | IndexSignature
  | ConstructorSignature | Parameter | TypeLiteral | TypeParameter | Accessor
  | GetSignature | SetSignature | TypeAlias | Reference | All

fun kind_value :: "ReflectionKind \<Rightarrow> int" where
  "kind_value Project = 1"
| "kind_value Module = 2"
| "kind_value Namespace = 4"
| "kind_value Enum = 8"
| "kind_value EnumMember = 16"
| "kind_value Variable = 32"
| "kind_value Function = 64"
| "kind_value Class = 128"
| "kind_value Interface = 256"
| "kind_value Constructor = 512"
| "kind_value Property = 1024"
| "kind_value Method = 2048"
| "kind_value CallSignature = 4096"
| "kind_value IndexSignature = 8192"
| "kind_value ConstructorSignature = 16384"
| "kind_value Parameter = 32768"
| "kind_value TypeLiteral = 65536"
| "kind_value TypeParameter = 131072"
| "kind_value Accessor = 262144"
| "kind_value GetSignature = 524288"
| "kind_value SetSignature = 1048576"
| "kind_value TypeAlias = 2097152"
| "kind_value Reference = 4194304"
| "kind_value All = 8388607"

section \<open>JavaScript values used by the parser\<close>

text \<open>
  A JavaScript \<open>Map\<close> iterates in the order in which its keys were first inserted, and
  \<open>set\<close> on a key that is already there replaces the value in place. Two loops of the
  parser depend on that order, so a \<open>Map\<close> is an association list with distinct keys:
  \<open>Map_set\<close> replaces in place or appends at the end.
\<close>

type_synonym ('k, 'v) Map = "('k \<times> 'v) list"

definition Map_get :: "('k, 'v) Map \<Rightarrow> 'k \<Rightarrow> 'v option" where
  "Map_get m k = map_of m k"

definition Map_set :: "('k, 'v) Map \<Rightarrow> 'k \<Rightarrow> 'v \<Rightarrow> ('k, 'v) Map" where
  "Map_set m k v = AList.update k v m"

definition Map_size :: "('k, 'v) Map \<Rightarrow> nat" where
  "Map_size m = length m"

text \<open>
  \<open>String.prototype.toLowerCase\<close> and \<open>String.prototype.includes\<close>. A \<open>char\<close> stands for
  one code unit of a JavaScript string. On a string whose code units are all ASCII,
  \<open>toLowerCase\<close> maps the letters \<open>A\<close> to \<open>Z\<close> to \<open>a\<close> to \<open>z\<close> and keeps every other code
  unit: that is what the Unicode case conversion of ECMAScript does there. What it
  does to a string with a code unit outside ASCII is decided by the Unicode tables of
  the JavaScript engine, which are no part of this repository; that mapping is the
  parameter \<open>unicodeLower\<close> of \<open>toLowerCase\<close>, and of \<open>findByName\<close> which calls it.
\<close>

definition ascii_upper :: string where
  "ascii_upper = ''ABCDEFGHIJKLMNOPQRSTUVWXYZ''"

definition ascii_lower :: string where
  "ascii_lower = ''abcdefghijklmnopqrstuvwxyz''"

definition lower_char :: "char \<Rightarrow> char" where
  "lower_char c = (case map_of (zip ascii_upper ascii_lower) c of None \<Rightarrow> c | Some d \<Rightarrow> d)"

definition is_ascii :: "string \<Rightarrow> bool" where
  "is_ascii s = list_all (\<lambda>c. \<not> digit7 c) s"

definition toLowerCase :: "(string \<Rightarrow> string) \<Rightarrow> string \<Rightarrow> string" where
  "toLowerCase unicodeLower s = (if is_ascii s then map lower_char s else unicodeLower s)"

fun includes_str :: "string \<Rightarrow> string \<Rightarrow> bool" where
  "includes_str [] t = (t = [])"
| "includes_str (c # s) t = (prefix t (c # s) \<or> includes_str s t)"

section \<open>The parser (src/parser/index.ts)\<close>

record ParsedSymbol =
  id_s :: int
  name_s :: string
  kind_s :: string
  path_s :: string
  reflection :: Reflection

record Stats =
  total_s :: nat
  classes :: nat
  interfaces :: nat
  functions_s :: nat
  variables :: nat
  types :: nat
  enums :: nat
  modules :: nat

record TypeDocParser =
  docPath :: string
  index :: "(int, Reflection) Map"
  nameIndex :: "(string, int list) Map"
  pathIndex :: "(string, int) Map"
  kindIndex :: "(int, int list) Map"
  doc :: "Reflection option"

text \<open>The constructor: four empty indices and no document.\<close>

definition new_TypeDocParser :: "string \<Rightarrow> TypeDocParser" where
  "new_TypeDocParser dp =
     \<lparr>docPath = dp, index = [], nameIndex = [], pathIndex = [], kindIndex = [], doc = None\<rparr>"

subsection \<open>buildIndex\<close>

text \<open>
  \<open>fullPathOf\<close> is the template \<^verbatim>\<open>parentPath ? `${parentPath}.${node.name}` : node.name\<close>;
  the empty string is the only falsy string.
\<close>

definition fullPathOf :: "string \<Rightarrow> string \<Rightarrow> string" where
  "fullPathOf parentPath nm = (if parentPath \<noteq> [] then parentPath @ ''.'' @ nm else nm)"

text \<open>
  \<open>getOrEmpty\<close> is \<^verbatim>\<open>m.get(k) || []\<close> (an array, even an empty one, is truthy), and
  \<open>addToBucket\<close> is the three-line idiom
  \<^verbatim>\<open>const ids = m.get(k) || []; ids.push(id); m.set(k, ids)\<close>.
\<close>

definition getOrEmpty :: "('k, int list) Map \<Rightarrow> 'k \<Rightarrow> int list" where
  "getOrEmpty m k = (case Map_get m k of None \<Rightarrow> [] | Some ids \<Rightarrow> ids)"

definition addToBucket :: "('k, int list) Map \<Rightarrow> 'k \<Rightarrow> int \<Rightarrow> ('k, int list) Map" where
  "addToBucket m k i = Map_set m k (getOrEmpty m k @ [i])"

text \<open>
  \<open>indexNode\<close> is the body of \<open>buildIndex\<close> before the two loops, with the full path
  already computed. The test \<^verbatim>\<open>if (node.kind)\<close> is JavaScript truthiness: a missing kind
  and the number 0 both fail it.
\<close>

definition indexNode :: "Reflection \<Rightarrow> string \<Rightarrow> TypeDocParser \<Rightarrow> TypeDocParser" where
  "indexNode node fullPath p =
     (let p1 = p\<lparr>index := Map_set (index p) (id_r node) node\<rparr>;
          p2 = p1\<lparr>pathIndex := Map_set (pathIndex p1) fullPath (id_r node)\<rparr>;
          p3 = p2\<lparr>nameIndex := addToBucket (nameIndex p2) (name node) (id_r node)\<rparr>
      in (case kind node of
            None \<Rightarrow> p3
          | Some k \<Rightarrow>
              if k \<noteq> 0 then p3\<lparr>kindIndex := addToBucket (kindIndex p3) k (id_r node)\<rparr>
              else p3))"

fun buildIndex :: "Reflection \<Rightarrow> string \<Rightarrow> TypeDocParser \<Rightarrow> TypeDocParser" where
  "buildIndex (Reflection i n k ks cs ss) parentPath p =
     (let fullPath = fullPathOf parentPath n;
          p1 = indexNode (Reflection i n k ks cs ss) fullPath p;
          p2 = fold (\<lambda>child. buildIndex child fullPath) cs p1
      in fold (\<lambda>signature. buildIndex signature fullPath) ss p2)"

text \<open>
  The order in which \<open>buildIndex\<close> visits the tree: a node, then the subtrees of its
  children from left to right, then those of its signatures. \<open>nodes\<close> lists the
  nodes reachable through \<open>children\<close> and \<open>signatures\<close> edges in that order, and
  \<open>traversal\<close> pairs each with the full path computed for it.
\<close>

fun nodes :: "Reflection \<Rightarrow> Reflection list" where
  "nodes (Reflection i n k ks cs ss) =
     Reflection i n k ks cs ss # concat (map nodes cs) @ concat (map nodes ss)"

fun traversal :: "Reflection \<Rightarrow> string \<Rightarrow> (Reflection \<times> string) list" where
  "traversal (Reflection i n k ks cs ss) parentPath =
     (let fullPath = fullPathOf parentPath n
      in (Reflection i n k ks cs ss, fullPath) #
         concat (map (\<lambda>child. traversal child fullPath) cs) @
         concat (map (\<lambda>signature. traversal signature fullPath) ss))"

definition visitAll :: "(Reflection \<times> string) list \<Rightarrow> TypeDocParser \<Rightarrow> TypeDocParser" where
  "visitAll tr p = fold (\<lambda>(node, fullPath). indexNode node fullPath) tr p"

subsection \<open>parse\<close>

text \<open>
  What \<open>parse\<close> gets from the file system and from \<open>JSON.parse\<close>: the read fails, the
  text is not JSON, or it is a JSON value, \<open>null\<close> (\<open>None\<close>) or a document.
\<close>

datatype source = ReadFails | NotJSON | Json "Reflection option"

datatype error = ReadError | SyntaxError | Error string

text \<open>
  \<open>parse\<close> returns what was thrown, if anything, and the parser as the call leaves it.
  The failures modelled are those before the indexing starts: the two early ones leave
  every field alone, and a \<open>null\<close> document is stored in \<open>doc\<close> before the throw. Once
  \<open>buildIndex\<close> runs, the model is of a traversal that completes: the tree is a finite
  value of type \<open>Reflection\<close>. A throw from inside \<open>buildIndex\<close> (the call stack of the
  engine running out on a very deep tree, a child that is not an object) comes with no
  rollback and leaves the indices partly filled; it has no counterpart here, and no
  statement below is about a load that fails.
\<close>

definition parse :: "source \<Rightarrow> TypeDocParser \<Rightarrow> error option \<times> TypeDocParser" where
  "parse src p =
     (case src of
        ReadFails \<Rightarrow> (Some ReadError, p)
      | NotJSON \<Rightarrow> (Some SyntaxError, p)
      | Json None \<Rightarrow> (Some (Error ''Failed to parse TypeDoc JSON''), p\<lparr>doc := None\<rparr>)
      | Json (Some d) \<Rightarrow> (None, buildIndex d [] (p\<lparr>doc := Some d\<rparr>)))"

text \<open>\<open>new TypeDocParser(dp)\<close> followed by a \<open>parse()\<close> that reads the document \<open>root\<close>.\<close>

definition load :: "string \<Rightarrow> Reflection \<Rightarrow> TypeDocParser" where
  "load dp root = snd (parse (Json (Some root)) (new_TypeDocParser dp))"

subsection \<open>Queries\<close>

definition getKindString :: "int option \<Rightarrow> string" where
  "getKindString k =
     (case k of
        None \<Rightarrow> ''Unknown''
      | Some v \<Rightarrow>
          if v = kind_value Module then ''Module''
          else if v = kind_value Namespace then ''Namespace''
          else if v = kind_value Enum then ''Enum''
          else if v = kind_value Variable then ''Variable''
          else if v = kind_value Function then ''Function''
          else if v = kind_value Class then ''Class''
          else if v = kind_value Interface then ''Interface''
          else if v = kind_value Constructor then ''Constructor''
          else if v = kind_value Property then ''Property''
          else if v = kind_value Method then ''Method''
          else if v = kind_value TypeAlias then ''Type alias''
          else ''Unknown'')"

text \<open>
  \<open>getPath\<close> scans the path index in iteration order for the first entry whose value is
  the reflection's id, and falls back to the bare name.
\<close>

definition getPath :: "TypeDocParser \<Rightarrow> Reflection \<Rightarrow> string" where
  "getPath p r =
     (case find (\<lambda>(path, i). i = id_r r) (pathIndex p) of
        Some (path, i) \<Rightarrow> path
      | None \<Rightarrow> name r)"

definition createParsedSymbol :: "TypeDocParser \<Rightarrow> Reflection \<Rightarrow> ParsedSymbol" where
  "createParsedSymbol p r =
     \<lparr>id_s = id_r r,
      name_s = name r,
      kind_s = (case kindString r of
                  None \<Rightarrow> getKindString (kind r)
                | Some s \<Rightarrow> if s \<noteq> [] then s else getKindString (kind r)),
      path_s = getPath p r,
      reflection = r\<rparr>"

text \<open>
  The loop \<^verbatim>\<open>for (const id of ids) { const r = this.index.get(id); if (r) results.push(...) }\<close>
  occurs in \<open>findByName\<close> (twice) and in \<open>findByKind\<close>.
\<close>

definition resolveIds :: "TypeDocParser \<Rightarrow> int list \<Rightarrow> ParsedSymbol list" where
  "resolveIds p ids =
     concat (map (\<lambda>i. case Map_get (index p) i of
                          None \<Rightarrow> []
                        | Some r \<Rightarrow> [createParsedSymbol p r]) ids)"

definition findByName ::
  "(string \<Rightarrow> string) \<Rightarrow> TypeDocParser \<Rightarrow> string \<Rightarrow> bool \<Rightarrow> ParsedSymbol list" where
  "findByName unicodeLower p nm exact =
     (if exact then
        resolveIds p (getOrEmpty (nameIndex p) nm)
      else
        concat (map (\<lambda>(symbolName, ids).
                       if includes_str (toLowerCase unicodeLower symbolName)
                                       (toLowerCase unicodeLower nm)
                       then resolveIds p ids else [])
                    (nameIndex p)))"

definition findByPath :: "TypeDocParser \<Rightarrow> string \<Rightarrow> ParsedSymbol option" where
  "findByPath p path =
     (case Map_get (pathIndex p) path of
        None \<Rightarrow> None
      | Some i \<Rightarrow>
          if i = 0 then None
          else (case Map_get (index p) i of
                  None \<Rightarrow> None
                | Some r \<Rightarrow> Some (createParsedSymbol p r)))"

definition findByKind :: "TypeDocParser \<Rightarrow> int \<Rightarrow> ParsedSymbol list" where
  "findByKind p k = resolveIds p (getOrEmpty (kindIndex p) k)"

definition getById :: "TypeDocParser \<Rightarrow> int \<Rightarrow> Reflection option" where
  "getById p i = Map_get (index p) i"

text \<open>\<^verbatim>\<open>this.kindIndex.get(K)?.length || 0\<close>\<close>

definition bucketLength :: "TypeDocParser \<Rightarrow> ReflectionKind \<Rightarrow> nat" where
  "bucketLength p k =
     (case Map_get (kindIndex p) (kind_value k) of None \<Rightarrow> 0 | Some ids \<Rightarrow> length ids)"

definition getStats :: "TypeDocParser \<Rightarrow> Stats" where
  "getStats p =
     \<lparr>total_s = Map_size (index p),
      classes = bucketLength p Class,
      interfaces = bucketLength p Interface,
      functions_s = bucketLength p Function,
      variables = bucketLength p Variable,
      types = bucketLength p TypeAlias,
      enums = bucketLength p Enum,
      modules = bucketLength p Module\<rparr>"

section \<open>Example documents\<close>

text \<open>
  \<open>lib_tree\<close> is the document
  \<^verbatim>\<open>{id:1,name:"Lib",kind:2,children:[{id:2,name:"Widget",kind:128,children:[{id:3,name:"render",kind:2048}]}]}\<close>.
  In \<open>collision_tree\<close> two children of \<open>Lib\<close> are both named \<open>Widget\<close>, and the
  second one has a signature.
\<close>

definition lib_tree :: Reflection where
  "lib_tree =
     Reflection 1 ''Lib'' (Some 2) None
       [Reflection 2 ''Widget'' (Some 128) None
          [Reflection 3 ''render'' (Some 2048) None [] []] []] []"

definition collision_tree :: Reflection where
  "collision_tree =
     Reflection 1 ''Lib'' (Some 2) None
       [Reflection 2 ''Widget'' (Some 128) None [] [],
        Reflection 3 ''Widget'' (Some 64) (Some ''Function'')
          [] [Reflection 4 ''Widget'' (Some 4096) None [] []]] []"

text \<open>
  In \<open>zero_id_tree\<close> the root has the id 0. In \<open>zero_id_collision_tree\<close> two children of
  \<open>Lib\<close> are both named \<open>Widget\<close> and the second one has the id 0. The ids of each tree
  are pairwise distinct.
\<close>

definition zero_id_tree :: Reflection where
  "zero_id_tree =
     Reflection 0 ''Lib'' (Some 1) None
       [Reflection 1 ''Widget'' (Some 128) None [] []] []"

definition zero_id_collision_tree :: Reflection where
  "zero_id_collision_tree =
     Reflection 1 ''Lib'' (Some 2) None
       [Reflection 2 ''Widget'' (Some 128) None [] [],
        Reflection 0 ''Widget'' (Some 64) None [] []] []"

text \<open>
  In \<open>zero_kind_tree\<close> the only node carries the kind 0.
\<close>

definition zero_kind_tree :: Reflection where
  "zero_kind_tree = Reflection 1 ''Lib'' (Some 0) None [] []"

section \<open>Measures used in the statements\<close>

text \<open>The sizes of all buckets of a bucket index, added up.\<close>

definition bucketSizes :: "('k, int list) Map \<Rightarrow> nat" where
  "bucketSizes m = sum_list (map (\<lambda>e. length (snd e)) m)"


section \<open>Association lists filled by a loop\<close>

text \<open>
  Each index is filled by running \<open>Map_set\<close> over the visited nodes. The lemmas below say
  what such a loop leaves behind: with fresh distinct keys the entries are appended in
  order; in general the last write to a key is the one that is read back.
\<close>

lemma update_fresh: "k \<notin> fst ` set m \<Longrightarrow> AList.update k v m = m @ [(k, v)]"
  by (induction m) auto

lemma fold_update_fresh:
  "distinct (map kf xs) \<Longrightarrow> kf ` set xs \<inter> fst ` set m = {} \<Longrightarrow>
   fold (\<lambda>x. AList.update (kf x) (vf x)) xs m = m @ map (\<lambda>x. (kf x, vf x)) xs"
proof (induction xs arbitrary: m)
  case Nil
  then show ?case by simp
next
  case (Cons x xs)
  have fresh: "kf x \<notin> fst ` set m" using Cons.prems(2) by auto
  have "kf ` set xs \<inter> fst ` set (m @ [(kf x, vf x)]) = {}"
    using Cons.prems by auto
  with Cons.IH [of "m @ [(kf x, vf x)]"] Cons.prems(1) fresh show ?case
    by (simp add: update_fresh)
qed

lemma map_of_fold_update_other:
  "k \<notin> kf ` set xs \<Longrightarrow> map_of (fold (\<lambda>x. AList.update (kf x) (vf x)) xs m) k = map_of m k"
  by (induction xs arbitrary: m) (auto simp: update_conv')

lemma map_of_fold_update_last:
  assumes "xs = as @ x # bs" and "kf x \<notin> kf ` set bs"
  shows "map_of (fold (\<lambda>y. AList.update (kf y) (vf y)) xs m) (kf x) = Some (vf x)"
  using assms by (simp add: map_of_fold_update_other update_conv')

lemma keys_fold_update:
  "fst ` set (fold (\<lambda>x. AList.update (kf x) (vf x)) xs m) = fst ` set m \<union> kf ` set xs"
  by (induction xs arbitrary: m) (auto simp: dom_update)

lemma distinct_fold_update:
  "distinct (map fst m) \<Longrightarrow> distinct (map fst (fold (\<lambda>x. AList.update (kf x) (vf x)) xs m))"
  by (induction xs arbitrary: m) (auto simp: distinct_update)

lemma map_of_fold_update_SomeD:
  assumes "map_of (fold (\<lambda>x. AList.update (kf x) (vf x)) xs []) k = Some v"
  shows "\<exists>as x bs. xs = as @ x # bs \<and> kf x = k \<and> vf x = v \<and> k \<notin> kf ` set bs"
proof -
  have "\<exists>x \<in> set xs. kf x = k"
  proof (rule ccontr)
    assume "\<not> (\<exists>x \<in> set xs. kf x = k)"
    then have "k \<notin> kf ` set xs" by auto
    from map_of_fold_update_other [OF this, of vf "[]"] assms show False by simp
  qed
  then obtain as x bs where d: "xs = as @ x # bs" "kf x = k" "\<forall>z \<in> set bs. kf z \<noteq> k"
    using split_list_last_prop [of xs "\<lambda>x. kf x = k"] by blast
  then have "kf x \<notin> kf ` set bs" by auto
  from map_of_fold_update_last [OF d(1) this, of vf "[]"] assms d(2) have v: "vf x = v" by simp
  from d(3) have "k \<notin> kf ` set bs" by auto
  with d(1,2) v show ?thesis by blast
qed

section \<open>buildIndex as a loop over the traversal\<close>

lemma fold_buildIndex_children:
  assumes "\<And>c q. c \<in> set cs \<Longrightarrow> buildIndex c fp q = visitAll (traversal c fp) q"
  shows "fold (\<lambda>c. buildIndex c fp) cs p = visitAll (concat (map (\<lambda>c. traversal c fp) cs)) p"
  using assms by (induction cs arbitrary: p) (simp_all add: visitAll_def)

lemma buildIndex_traversal: "buildIndex node pp p = visitAll (traversal node pp) p"
proof (induction node pp p rule: buildIndex.induct)
  case (1 i n k ks cs ss parentPath p)
  let ?fp = "fullPathOf parentPath n"
  have c: "\<And>q. fold (\<lambda>c. buildIndex c ?fp) cs q = visitAll (concat (map (\<lambda>c. traversal c ?fp) cs)) q"
    using "1.IH"(1) by (intro fold_buildIndex_children) auto
  have s: "\<And>q. fold (\<lambda>c. buildIndex c ?fp) ss q = visitAll (concat (map (\<lambda>c. traversal c ?fp) ss)) q"
    using "1.IH"(2) by (intro fold_buildIndex_children) auto
  show ?case
    by (simp add: Let_def c s) (simp add: visitAll_def)
qed

lemma map_fst_traversal: "map fst (traversal node pp) = nodes node"
  by (induction node pp rule: traversal.induct) (simp add: Let_def map_concat comp_def cong: map_cong)

section \<open>The indices after a load\<close>

lemma index_indexNode: "index (indexNode n fp p) = Map_set (index p) (id_r n) n"
  by (simp add: indexNode_def Let_def split: option.splits)

lemma pathIndex_indexNode: "pathIndex (indexNode n fp p) = Map_set (pathIndex p) fp (id_r n)"
  by (simp add: indexNode_def Let_def split: option.splits)

lemma nameIndex_indexNode:
  "nameIndex (indexNode n fp p) = addToBucket (nameIndex p) (name n) (id_r n)"
  by (simp add: indexNode_def Let_def split: option.splits)

lemma kindIndex_indexNode:
  "kindIndex (indexNode n fp p) =
     (case kind n of
        None \<Rightarrow> kindIndex p
      | Some k \<Rightarrow> if k \<noteq> 0 then addToBucket (kindIndex p) k (id_r n) else kindIndex p)"
  by (simp add: indexNode_def Let_def split: option.splits)

lemma visitAll_Nil: "visitAll [] p = p"
  by (simp add: visitAll_def)

lemma visitAll_Cons: "visitAll ((n, fp) # tr) p = visitAll tr (indexNode n fp p)"
  by (simp add: visitAll_def)

lemma index_visitAll:
  "index (visitAll tr p) = fold (\<lambda>x. AList.update (id_r (fst x)) (fst x)) tr (index p)"
  by (induction tr arbitrary: p)
     (auto simp: visitAll_Nil visitAll_Cons index_indexNode Map_set_def)

lemma pathIndex_visitAll:
  "pathIndex (visitAll tr p) = fold (\<lambda>x. AList.update (snd x) (id_r (fst x))) tr (pathIndex p)"
  by (induction tr arbitrary: p)
     (auto simp: visitAll_Nil visitAll_Cons pathIndex_indexNode Map_set_def)

lemma load_eq:
  "load dp root = visitAll (traversal root []) ((new_TypeDocParser dp)\<lparr>doc := Some root\<rparr>)"
  by (simp add: load_def parse_def buildIndex_traversal)

lemma index_load:
  "index (load dp root) = fold (\<lambda>x. AList.update (id_r (fst x)) (fst x)) (traversal root []) []"
  by (simp add: load_eq index_visitAll new_TypeDocParser_def)

lemma pathIndex_load:
  "pathIndex (load dp root) = fold (\<lambda>x. AList.update (snd x) (id_r (fst x))) (traversal root []) []"
  by (simp add: load_eq pathIndex_visitAll new_TypeDocParser_def)

lemma index_load_distinct:
  assumes "distinct (map id_r (nodes root))"
  shows "index (load dp root) = map (\<lambda>n. (id_r n, n)) (nodes root)"
proof -
  have "distinct (map (\<lambda>x. id_r (fst x)) (traversal root []))"
    using assms by (simp add: map_fst_traversal [of root "[]", symmetric] comp_def)
  then have "index (load dp root) = map (\<lambda>x. (id_r (fst x), fst x)) (traversal root [])"
    by (simp add: index_load fold_update_fresh)
  also have "\<dots> = map (\<lambda>n. (id_r n, n)) (map fst (traversal root []))"
    by (simp add: comp_def)
  finally show ?thesis by (simp add: map_fst_traversal)
qed

lemma distinct_nodes: "distinct (map id_r (nodes root)) \<Longrightarrow> distinct (nodes root)"
  by (rule distinct_map [THEN iffD1, THEN conjunct1])

lemma Map_get_index_load:
  assumes "distinct (map id_r (nodes root))" and "n \<in> set (nodes root)"
  shows "Map_get (index (load dp root)) (id_r n) = Some n"
proof -
  have "distinct (map fst (map (\<lambda>n. (id_r n, n)) (nodes root)))"
    using assms(1) by (simp add: comp_def)
  moreover have "(id_r n, n) \<in> set (map (\<lambda>n. (id_r n, n)) (nodes root))"
    using assms(2) by auto
  ultimately show ?thesis
    by (simp only: Map_get_def index_load_distinct [OF assms(1)] map_of_is_SomeI)
qed

section \<open>The ID index\<close>

text \<open>
  Claim C1. When the ids of the nodes of the loaded tree are pairwise distinct, the ID
  index after the load lists exactly the nodes reachable from the root through
  \<open>children\<close> and \<open>signatures\<close>, each once and under its own id, in traversal order:
  the keys are distinct, looking up a node's id gives that node, exactly one entry
  holds it, and every entry is a reachable node stored under its own id.
\<close>

theorem id_index_complete:
  assumes "distinct (map id_r (nodes root))"
  shows "index (load dp root) = map (\<lambda>n. (id_r n, n)) (nodes root)
       \<and> distinct (map fst (index (load dp root)))
       \<and> (\<forall>n \<in> set (nodes root).
            Map_get (index (load dp root)) (id_r n) = Some n
          \<and> length (filter (\<lambda>e. snd e = n) (index (load dp root))) = 1)
       \<and> (\<forall>e \<in> set (index (load dp root)). snd e \<in> set (nodes root) \<and> fst e = id_r (snd e))"
proof -
  note eq = index_load_distinct [OF assms]
  have d: "distinct (nodes root)" using assms by (rule distinct_nodes)
  have once: "length (filter (\<lambda>e. snd e = n) (index (load dp root))) = 1"
    if "n \<in> set (nodes root)" for n
  proof -
    have "filter (\<lambda>e. snd e = n) (map (\<lambda>n. (id_r n, n)) (nodes root))
            = map (\<lambda>n. (id_r n, n)) (filter (\<lambda>m. m = n) (nodes root))"
      by (simp add: filter_map comp_def)
    moreover have "length (filter (\<lambda>m. m = n) (nodes root)) = 1"
    proof -
      have "{m. m = n} \<inter> set (nodes root) = {n}" using that by auto
      with distinct_length_filter [OF d, of "\<lambda>m. m = n"] show ?thesis by simp
    qed
    ultimately show ?thesis by (simp add: eq)
  qed
  show ?thesis
    using assms once by (auto simp: eq comp_def Map_get_index_load [OF assms, unfolded eq])
qed

theorem id_index_complete_witness:
  "distinct (map id_r (nodes lib_tree))
   \<and> index (load ''docs/typedoc.json'' lib_tree) =
       [(1, lib_tree),
        (2, Reflection 2 ''Widget'' (Some 128) None
              [Reflection 3 ''render'' (Some 2048) None [] []] []),
        (3, Reflection 3 ''render'' (Some 2048) None [] [])]
   \<and> Map_get (index (load ''docs/typedoc.json'' lib_tree)) 3 =
       Some (Reflection 3 ''render'' (Some 2048) None [] [])"
proof -
  have h: "distinct (map id_r (nodes lib_tree))" by (simp add: lib_tree_def)
  have r: "Reflection 3 ''render'' (Some 2048) None [] [] \<in> set (nodes lib_tree)"
    by (simp add: lib_tree_def)
  from id_index_complete [OF h, of "''docs/typedoc.json''"] r h show ?thesis
    by (auto simp: lib_tree_def)
qed

section \<open>The path index\<close>

lemma distinct_keys_pathIndex_load: "distinct (map fst (pathIndex (load dp root)))"
  by (simp add: pathIndex_load distinct_fold_update)

lemma filter_key_distinct:
  "distinct (map fst m) \<Longrightarrow> map_of m k = Some v \<Longrightarrow> filter (\<lambda>e. fst e = k) m = [(k, v)]"
proof (induction m)
  case Nil
  then show ?case by simp
next
  case (Cons e m)
  show ?case
  proof (cases "fst e = k")
    case True
    with Cons.prems have "e = (k, v)" by (cases e) simp
    moreover have "filter (\<lambda>e. fst e = k) m = []"
    proof -
      have "k \<notin> fst ` set m" using Cons.prems(1) True by auto
      then have "\<forall>e \<in> set m. fst e \<noteq> k" by auto
      then show ?thesis by (simp add: filter_empty_conv)
    qed
    ultimately show ?thesis by simp
  next
    case False
    with Cons show ?thesis by (cases e) auto
  qed
qed

lemma distinct_fst_traversal:
  "distinct (map id_r (nodes root)) \<Longrightarrow> distinct (map fst (traversal root pp))"
  by (simp add: map_fst_traversal distinct_nodes)

lemma node_in_traversal: "(n, s) \<in> set (traversal root pp) \<Longrightarrow> n \<in> set (nodes root)"
proof -
  assume "(n, s) \<in> set (traversal root pp)"
  then have "fst (n, s) \<in> fst ` set (traversal root pp)" by (rule imageI)
  then have "n \<in> set (map fst (traversal root pp))" by simp
  then show ?thesis by (simp only: map_fst_traversal)
qed

lemma pathIndex_load_last:
  assumes "traversal root [] = xs @ (n, s) # ys" and "s \<notin> snd ` set ys"
  shows "Map_get (pathIndex (load dp root)) s = Some (id_r n)"
  using map_of_fold_update_last [of "traversal root []" xs "(n, s)" ys snd "\<lambda>x. id_r (fst x)" "[]"] assms
  by (simp add: Map_get_def pathIndex_load)

lemma findByPath_load_last:
  assumes "distinct (map id_r (nodes root))"
    and "traversal root [] = xs @ (n, s) # ys" and "s \<notin> snd ` set ys" and "id_r n \<noteq> 0"
  shows "findByPath (load dp root) s = Some (createParsedSymbol (load dp root) n)"
proof -
  have "(n, s) \<in> set (traversal root [])" using assms(2) by simp
  then have "n \<in> set (nodes root)" by (rule node_in_traversal)
  then have "Map_get (index (load dp root)) (id_r n) = Some n"
    using assms(1) by (simp add: Map_get_index_load)
  with pathIndex_load_last [OF assms(2,3), of dp] assms(4) show ?thesis
    by (simp add: findByPath_def)
qed

lemma reflection_createParsedSymbol: "reflection (createParsedSymbol p r) = r"
  by (simp add: createParsedSymbol_def)

lemma find_unique_value:
  assumes "(k, v) \<in> set m" and "\<forall>k'. (k', v) \<in> set m \<longrightarrow> k' = k"
  shows "find (\<lambda>(k', v'). v' = v) m = Some (k, v)"
  using assms
proof (induction m)
  case Nil
  then show ?case by simp
next
  case (Cons e m)
  obtain k' v' where e: "e = (k', v')" by (cases e)
  show ?case
  proof (cases "v' = v")
    case True
    have "(k', v) \<in> set (e # m)" using True e by simp
    with Cons.prems(2) have "k' = k" by blast
    with True e show ?thesis by simp
  next
    case False
    have "(k, v) \<in> set m" using Cons.prems(1) False e by simp
    moreover have "\<forall>k'. (k', v) \<in> set m \<longrightarrow> k' = k"
      using Cons.prems(2) by (meson list.set_intros(2))
    ultimately have "find (\<lambda>(k', v'). v' = v) m = Some (k, v)" by (rule Cons.IH)
    with False e show ?thesis by simp
  qed
qed

lemma pathIndex_load_entry:
  assumes "distinct (map id_r (nodes root))" and "(s, id_r n) \<in> set (pathIndex (load dp root))"
    and "n \<in> set (nodes root)"
  shows "\<exists>as bs. traversal root [] = as @ (n, s) # bs \<and> s \<notin> snd ` set bs"
proof -
  have "map_of (pathIndex (load dp root)) s = Some (id_r n)"
    using distinct_keys_pathIndex_load assms(2) by (rule map_of_is_SomeI)
  then have "map_of (fold (\<lambda>x. AList.update (snd x) (id_r (fst x))) (traversal root []) []) s
               = Some (id_r n)"
    by (simp only: pathIndex_load)
  from map_of_fold_update_SomeD [OF this]
  obtain as x bs where d: "traversal root [] = as @ x # bs" "snd x = s"
      "id_r (fst x) = id_r n" "s \<notin> snd ` set bs"
    by blast
  have "fst x \<in> set (nodes root)"
    using d(1) node_in_traversal [of "fst x" "snd x" root "[]"] by simp
  moreover have "inj_on id_r (set (nodes root))"
    using assms(1) by (simp add: distinct_map)
  ultimately have "fst x = n"
    using d(3) assms(3) by (rule_tac inj_onD)
  with d show ?thesis by (cases x) auto
qed

lemma getPath_load_last:
  assumes "distinct (map id_r (nodes root))"
    and "traversal root [] = xs @ (n, s) # ys" and "s \<notin> snd ` set ys"
  shows "getPath (load dp root) n = s"
proof -
  let ?P = "load dp root"
  have n: "n \<in> set (nodes root)"
    using assms(2) node_in_traversal [of n s root "[]"] by simp
  have "map_of (pathIndex ?P) s = Some (id_r n)"
    using pathIndex_load_last [OF assms(2,3), of dp] by (simp add: Map_get_def)
  then have mem: "(s, id_r n) \<in> set (pathIndex ?P)" by (rule map_of_SomeD)
  have uniq: "s' = s" if "(s', id_r n) \<in> set (pathIndex ?P)" for s'
  proof -
    from pathIndex_load_entry [OF assms(1) that n]
    have "(n, s') \<in> set (traversal root [])" by auto
    moreover have "(n, s) \<in> set (traversal root [])" using assms(2) by simp
    ultimately show ?thesis
      using eq_key_imp_eq_value [OF distinct_fst_traversal [OF assms(1), of "[]"]] by blast
  qed
  have "find (\<lambda>(path, i). i = id_r n) (pathIndex ?P) = Some (s, id_r n)"
  proof (rule find_unique_value [OF mem])
    show "\<forall>k'. (k', id_r n) \<in> set (pathIndex ?P) \<longrightarrow> k' = s"
      using uniq by (intro allI impI)
  qed
  then show ?thesis by (simp add: getPath_def)
qed

text \<open>
  The path rule and the collision policy of the path index. A node's path is
  \<open>parentPath @ ''.'' @ name\<close> when the parent path is not empty and the bare name
  otherwise, and that path is handed to the children and the signatures as their
  parent path. When \<open>n\<close> is the last node of the traversal whose path is \<open>s\<close> (everything
  in \<open>ys\<close>, traversed later, has another path), the path index holds exactly one entry
  for \<open>s\<close>, with the id of \<open>n\<close>, whatever the ids are.
\<close>

lemma path_rule:
  "(let fullPath = (if parentPath \<noteq> [] then parentPath @ ''.'' @ name node else name node)
    in buildIndex node parentPath p =
         fold (\<lambda>c. buildIndex c fullPath) (signatures node)
           (fold (\<lambda>c. buildIndex c fullPath) (children node) (indexNode node fullPath p))
     \<and> pathIndex (indexNode node fullPath p) = Map_set (pathIndex p) fullPath (id_r node))"
  by (cases node) (simp add: Let_def fullPathOf_def pathIndex_indexNode)

lemma path_index_last_writer:
  assumes "traversal root [] = xs @ (n, s) # ys" and "s \<notin> snd ` set ys"
  shows "filter (\<lambda>e. fst e = s) (pathIndex (load dp root)) = [(s, id_r n)]"
  using pathIndex_load_last [OF assms, of dp]
  by (simp add: filter_key_distinct distinct_keys_pathIndex_load Map_get_def)

text \<open>
  When moreover the ids of the tree are pairwise distinct and the id of that last node
  is not 0, \<open>findByPath s\<close> returns the entry of \<open>n\<close>, and not the entry of any node \<open>m\<close>
  that computed the same path earlier.
\<close>

lemma path_collision_nonzero_id:
  assumes "distinct (map id_r (nodes root))"
    and "traversal root [] = xs @ (n, s) # ys"
    and "s \<notin> snd ` set ys"
    and "id_r n \<noteq> 0"
  shows "findByPath (load dp root) s = Some (createParsedSymbol (load dp root) n)
       \<and> (\<forall>m. (m, s) \<in> set xs \<longrightarrow>
             findByPath (load dp root) s \<noteq> Some (createParsedSymbol (load dp root) m))"
proof -
  have found: "findByPath (load dp root) s = Some (createParsedSymbol (load dp root) n)"
    using assms by (rule findByPath_load_last)
  have earlier: "findByPath (load dp root) s \<noteq> Some (createParsedSymbol (load dp root) m)"
    if "(m, s) \<in> set xs" for m
  proof -
    have "distinct (map fst (xs @ (n, s) # ys))"
      using distinct_fst_traversal [OF assms(1), of "[]"] assms(2) by simp
    then have "n \<notin> fst ` set xs" by auto
    with that have "m \<noteq> n" by force
    then have "createParsedSymbol (load dp root) n \<noteq> createParsedSymbol (load dp root) m"
      using reflection_createParsedSymbol [of "load dp root" n]
        reflection_createParsedSymbol [of "load dp root" m] by auto
    with found show ?thesis by simp
  qed
  from earlier have "\<forall>m. (m, s) \<in> set xs \<longrightarrow>
      findByPath (load dp root) s \<noteq> Some (createParsedSymbol (load dp root) m)"
    by (intro allI impI)
  with found show ?thesis by (intro conjI)
qed

text \<open>
  Claim C2. The claim asks \<open>findByPath\<close> to return the later-traversed of two nodes that
  compute the same path. In \<open>zero_id_collision_tree\<close> the two children named \<open>Widget\<close>
  both compute \<open>Lib.Widget\<close>. After the load the path index keeps the id of the later
  one, 0, as the claim says, and the ID index holds that node under 0, so \<open>getById 0\<close>
  returns it; but \<open>findByPath\<close> returns the not-found value, since its test
  \<^verbatim>\<open>if (!id) return null\<close> takes the id 0 for a missing entry.
\<close>

theorem find_by_path_collision_zero_id:
  "distinct (map id_r (nodes zero_id_collision_tree))
   \<and> traversal zero_id_collision_tree [] =
       [(zero_id_collision_tree, ''Lib''),
        (Reflection 2 ''Widget'' (Some 128) None [] [], ''Lib.Widget''),
        (Reflection 0 ''Widget'' (Some 64) None [] [], ''Lib.Widget'')]
   \<and> pathIndex (load ''docs/typedoc.json'' zero_id_collision_tree) =
       [(''Lib'', 1), (''Lib.Widget'', 0)]
   \<and> getById (load ''docs/typedoc.json'' zero_id_collision_tree) 0 =
       Some (Reflection 0 ''Widget'' (Some 64) None [] [])
   \<and> findByPath (load ''docs/typedoc.json'' zero_id_collision_tree) ''Lib.Widget'' = None"
proof -
  let ?P = "load ''docs/typedoc.json'' zero_id_collision_tree"
  have d: "distinct (map id_r (nodes zero_id_collision_tree))"
    by (simp add: zero_id_collision_tree_def)
  have t: "traversal zero_id_collision_tree [] =
       [(zero_id_collision_tree, ''Lib''),
        (Reflection 2 ''Widget'' (Some 128) None [] [], ''Lib.Widget''),
        (Reflection 0 ''Widget'' (Some 64) None [] [], ''Lib.Widget'')]"
    by (simp add: zero_id_collision_tree_def fullPathOf_def Let_def)
  have pi: "pathIndex ?P = [(''Lib'', 1), (''Lib.Widget'', 0)]"
    by (simp add: pathIndex_load t) (simp add: zero_id_collision_tree_def)
  have "Reflection 0 ''Widget'' (Some 64) None [] [] \<in> set (nodes zero_id_collision_tree)"
    by (simp add: zero_id_collision_tree_def)
  with d have "Map_get (index ?P) (id_r (Reflection 0 ''Widget'' (Some 64) None [] [])) =
      Some (Reflection 0 ''Widget'' (Some 64) None [] [])"
    by (rule Map_get_index_load)
  then have g: "getById ?P 0 = Some (Reflection 0 ''Widget'' (Some 64) None [] [])"
    by (simp add: getById_def)
  have f: "findByPath ?P ''Lib.Widget'' = None"
    by (simp add: findByPath_def Map_get_def pi)
  from d t pi g f show ?thesis by (intro conjI)
qed

text \<open>
  The round trip through the path helper. When the ids of the tree are pairwise
  distinct, a visited node \<open>n\<close> has a non-zero id, and no node traversed after \<open>n\<close>
  computes the same path \<open>s\<close>, the path helper returns \<open>s\<close> for \<open>n\<close> and feeding that path
  into \<open>findByPath\<close> returns the entry of \<open>n\<close> itself.
\<close>

lemma path_roundtrip_nonzero_id:
  assumes "distinct (map id_r (nodes root))"
    and "traversal root [] = xs @ (n, s) # ys"
    and "s \<notin> snd ` set ys"
    and "id_r n \<noteq> 0"
  shows "getPath (load dp root) n = s
       \<and> findByPath (load dp root) (getPath (load dp root) n)
           = Some (createParsedSymbol (load dp root) n)"
  using getPath_load_last [OF assms(1,2,3)] findByPath_load_last [OF assms] by simp

text \<open>
  Claim C8. The claim asks the round trip to return the node whenever no later node
  shares its path. In \<open>zero_id_tree\<close> the root has the id 0 and is the only node whose
  path is \<open>Lib\<close>. After the load the path helper returns \<open>Lib\<close> for the root and
  \<open>getById 0\<close> returns the root, but \<open>findByPath\<close> on \<open>Lib\<close> returns the not-found value,
  through the same test \<^verbatim>\<open>if (!id) return null\<close>.
\<close>

theorem path_roundtrip_zero_id:
  "distinct (map id_r (nodes zero_id_tree))
   \<and> traversal zero_id_tree [] =
       [(zero_id_tree, ''Lib''), (Reflection 1 ''Widget'' (Some 128) None [] [], ''Lib.Widget'')]
   \<and> getPath (load ''docs/typedoc.json'' zero_id_tree) zero_id_tree = ''Lib''
   \<and> getById (load ''docs/typedoc.json'' zero_id_tree) 0 = Some zero_id_tree
   \<and> findByPath (load ''docs/typedoc.json'' zero_id_tree)
        (getPath (load ''docs/typedoc.json'' zero_id_tree) zero_id_tree) = None"
proof -
  let ?P = "load ''docs/typedoc.json'' zero_id_tree"
  have d: "distinct (map id_r (nodes zero_id_tree))"
    by (simp add: zero_id_tree_def)
  have t: "traversal zero_id_tree [] =
       [(zero_id_tree, ''Lib''), (Reflection 1 ''Widget'' (Some 128) None [] [], ''Lib.Widget'')]"
    by (simp add: zero_id_tree_def fullPathOf_def Let_def)
  have t': "traversal zero_id_tree [] =
       [] @ (zero_id_tree, ''Lib'') # [(Reflection 1 ''Widget'' (Some 128) None [] [], ''Lib.Widget'')]"
    by (simp add: t)
  have "''Lib'' \<notin> snd ` set [(Reflection 1 ''Widget'' (Some 128) None [] [], ''Lib.Widget'')]"
    by simp
  with d t' have gp: "getPath ?P zero_id_tree = ''Lib''" by (rule getPath_load_last)
  have pi: "Map_get (pathIndex ?P) ''Lib'' = Some (id_r zero_id_tree)"
    using t' by (rule pathIndex_load_last) simp
  have z: "id_r zero_id_tree = 0" by (simp add: zero_id_tree_def)
  have "zero_id_tree \<in> set (nodes zero_id_tree)" by (simp add: zero_id_tree_def)
  with d have "Map_get (index ?P) (id_r zero_id_tree) = Some zero_id_tree"
    by (rule Map_get_index_load)
  then have g: "getById ?P 0 = Some zero_id_tree" by (simp add: getById_def z)
  have f: "findByPath ?P (getPath ?P zero_id_tree) = None"
    using pi by (simp add: gp findByPath_def z)
  from d t gp g f show ?thesis by (intro conjI)
qed

lemma distinct_split_unique:
  "distinct (us @ a # vs) \<Longrightarrow> us @ a # vs = us' @ a # vs' \<Longrightarrow> us = us' \<and> vs = vs'"
proof (induction us arbitrary: us')
  case Nil
  show ?case
  proof (cases us')
    case Nil
    with Nil.prems show ?thesis by simp
  next
    case (Cons b us'')
    with Nil.prems(2) have "vs = us'' @ a # vs'" by simp
    then have "a \<in> set vs" by simp
    with Nil.prems(1) show ?thesis by simp
  qed
next
  case (Cons u us)
  show ?case
  proof (cases us')
    case Nil
    with Cons.prems(2) have "u = a" by simp
    with Cons.prems(1) show ?thesis by simp
  next
    case (Cons u' us'')
    have d1: "distinct (us @ a # vs)" using Cons.prems(1) by simp
    have d2: "us @ a # vs = us'' @ a # vs'" and u: "u = u'" using Cons.prems(2) Cons by simp_all
    from Cons.IH [OF d1 d2] u Cons show ?thesis by simp
  qed
qed

lemma overwritten_not_registered:
  assumes "distinct (map id_r (nodes root))"
    and "traversal root [] = xs @ (n, s) # ys" and "s \<in> snd ` set ys"
  shows "id_r n \<notin> snd ` set (pathIndex (load dp root))"
proof
  assume "id_r n \<in> snd ` set (pathIndex (load dp root))"
  then obtain s' where e: "(s', id_r n) \<in> set (pathIndex (load dp root))" by force
  have n: "n \<in> set (nodes root)"
    using assms(2) node_in_traversal [of n s root "[]"] by simp
  from pathIndex_load_entry [OF assms(1) e n]
  obtain as bs where d: "traversal root [] = as @ (n, s') # bs" "s' \<notin> snd ` set bs" by blast
  have dm: "distinct (map fst xs @ n # map fst ys)"
    using distinct_fst_traversal [OF assms(1), of "[]"] assms(2) by simp
  have "map fst xs @ n # map fst ys = map fst as @ n # map fst bs"
    using assms(2) d(1) by (metis fst_conv list.simps(9) map_append)
  from distinct_split_unique [OF dm this] have "length xs = length as"
    by (metis length_map)
  with assms(2) d(1) have "xs = as" and "(n, s) # ys = (n, s') # bs" by simp_all
  then have "s = s'" and "ys = bs" by simp_all
  with d(2) assms(3) show False by simp
qed

text \<open>
  Claim C10. In any state of the parser, when the id of a reflection is not a value of
  the path index, the path helper returns the reflection's bare name, and so does the
  \<open>path\<close> field of the entry that the queries build for it. By
  \<open>overwritten_not_registered\<close> this is the case of a node of a loaded tree whose path
  was computed again by a node traversed later.
\<close>

theorem unregistered_path_is_name:
  assumes "id_r r \<notin> snd ` set (pathIndex p)"
  shows "getPath p r = name r \<and> path_s (createParsedSymbol p r) = name r"
proof -
  have "find (\<lambda>(path, i). i = id_r r) (pathIndex p) = None"
    using assms by (force simp: find_None_iff)
  then show ?thesis by (simp add: getPath_def createParsedSymbol_def)
qed

theorem unregistered_path_is_name_witness:
  "id_r (Reflection 2 ''Widget'' (Some 128) None [] [])
     \<notin> snd ` set (pathIndex (load ''docs/typedoc.json'' collision_tree))
   \<and> getPath (load ''docs/typedoc.json'' collision_tree)
        (Reflection 2 ''Widget'' (Some 128) None [] []) = ''Widget''
   \<and> path_s (createParsedSymbol (load ''docs/typedoc.json'' collision_tree)
        (Reflection 2 ''Widget'' (Some 128) None [] [])) = ''Widget''"
proof -
  let ?n2 = "Reflection 2 ''Widget'' (Some 128) None [] []"
  let ?n4 = "Reflection 4 ''Widget'' (Some 4096) None [] []"
  let ?n3 = "Reflection 3 ''Widget'' (Some 64) (Some ''Function'') [] [?n4]"
  have d: "distinct (map id_r (nodes collision_tree))"
    by (simp add: collision_tree_def)
  have t: "traversal collision_tree [] =
      [(collision_tree, ''Lib'')] @ (?n2, ''Lib.Widget'')
      # [(?n3, ''Lib.Widget''), (?n4, ''Lib.Widget.Widget'')]"
    by (simp add: collision_tree_def fullPathOf_def Let_def)
  have l: "''Lib.Widget'' \<in> snd ` set [(?n3, ''Lib.Widget''), (?n4, ''Lib.Widget.Widget'')]"
    by simp
  have h: "id_r ?n2 \<notin> snd ` set (pathIndex (load ''docs/typedoc.json'' collision_tree))"
    using d t l by (rule overwritten_not_registered)
  from unregistered_path_is_name [OF h] h show ?thesis by simp
qed

section \<open>The name index\<close>

lemma getOrEmpty_addToBucket:
  "getOrEmpty (addToBucket m k' i) k = (if k = k' then getOrEmpty m k @ [i] else getOrEmpty m k)"
  by (simp add: addToBucket_def getOrEmpty_def Map_set_def Map_get_def update_conv')



lemma nameIndex_visitAll_bucket:
  "getOrEmpty (nameIndex (visitAll tr p)) k =
     getOrEmpty (nameIndex p) k @ map id_r (filter (\<lambda>n. name n = k) (map fst tr))"
proof (induction tr arbitrary: p)
  case Nil
  then show ?case by (simp add: visitAll_Nil)
next
  case (Cons x tr)
  obtain n fp where x: "x = (n, fp)" by (cases x)
  show ?case
    by (simp add: x visitAll_Cons Cons.IH nameIndex_indexNode getOrEmpty_addToBucket)
qed



lemma nameIndex_load_bucket:
  "getOrEmpty (nameIndex (load dp root)) k = map id_r (filter (\<lambda>n. name n = k) (nodes root))"
proof -
  have "getOrEmpty (nameIndex ((new_TypeDocParser dp)\<lparr>doc := Some root\<rparr>)) k = []"
    by (simp add: new_TypeDocParser_def getOrEmpty_def Map_get_def)
  then show ?thesis
    by (simp only: load_eq nameIndex_visitAll_bucket map_fst_traversal append_Nil)
qed




lemma resolveIds_load:
  assumes "distinct (map id_r (nodes root))" and "set ns \<subseteq> set (nodes root)"
  shows "resolveIds (load dp root) (map id_r ns) = map (createParsedSymbol (load dp root)) ns"
  using assms(2)
proof (induction ns)
  case Nil
  then show ?case by (simp add: resolveIds_def)
next
  case (Cons n ns)
  then have "Map_get (index (load dp root)) (id_r n) = Some n"
    using assms(1) by (simp add: Map_get_index_load)
  moreover have "resolveIds (load dp root) (map id_r ns) = map (createParsedSymbol (load dp root)) ns"
    using Cons by simp
  ultimately show ?case by (simp add: resolveIds_def)
qed

text \<open>
  Claim C4. When the ids of the loaded tree are pairwise distinct, exact-mode
  \<open>findByName\<close> returns one entry for each node whose name equals the input, built from
  that node, in the order of the traversal; in particular a name with N occurrences
  gives N entries.
\<close>

theorem exact_name_lookup:
  assumes "distinct (map id_r (nodes root))"
  shows "findByName ul (load dp root) nm True =
           map (createParsedSymbol (load dp root)) (filter (\<lambda>n. name n = nm) (nodes root))
       \<and> map reflection (findByName ul (load dp root) nm True) = filter (\<lambda>n. name n = nm) (nodes root)
       \<and> length (findByName ul (load dp root) nm True) = length (filter (\<lambda>n. name n = nm) (nodes root))"
proof -
  have "set (filter (\<lambda>n. name n = nm) (nodes root)) \<subseteq> set (nodes root)" by auto
  from resolveIds_load [OF assms this, of dp]
  have eq: "findByName ul (load dp root) nm True =
           map (createParsedSymbol (load dp root)) (filter (\<lambda>n. name n = nm) (nodes root))"
    by (simp add: findByName_def nameIndex_load_bucket)
  have "map reflection (map (createParsedSymbol (load dp root)) ns) = ns" for ns
    by (induction ns) (simp_all add: createParsedSymbol_def)
  with eq show ?thesis by simp
qed

theorem exact_name_lookup_witness:
  "distinct (map id_r (nodes collision_tree))
   \<and> map reflection (findByName id (load ''docs/typedoc.json'' collision_tree) ''Widget'' True) =
       [Reflection 2 ''Widget'' (Some 128) None [] [],
        Reflection 3 ''Widget'' (Some 64) (Some ''Function'') []
          [Reflection 4 ''Widget'' (Some 4096) None [] []],
        Reflection 4 ''Widget'' (Some 4096) None [] []]
   \<and> length (findByName id (load ''docs/typedoc.json'' collision_tree) ''Widget'' True) = 3"
proof -
  have h: "distinct (map id_r (nodes collision_tree))" by (simp add: collision_tree_def)
  have f: "filter (\<lambda>n. name n = ''Widget'') (nodes collision_tree) =
       [Reflection 2 ''Widget'' (Some 128) None [] [],
        Reflection 3 ''Widget'' (Some 64) (Some ''Function'') []
          [Reflection 4 ''Widget'' (Some 4096) None [] []],
        Reflection 4 ''Widget'' (Some 4096) None [] []]"
    by (simp add: collision_tree_def)
  note t = exact_name_lookup [OF h, where ul = id and dp = "''docs/typedoc.json''"
      and nm = "''Widget''"]
  from t have "map reflection (findByName id (load ''docs/typedoc.json'' collision_tree) ''Widget'' True)
      = filter (\<lambda>n. name n = ''Widget'') (nodes collision_tree)"
    by (elim conjE)
  then have a: "map reflection (findByName id (load ''docs/typedoc.json'' collision_tree) ''Widget'' True) =
       [Reflection 2 ''Widget'' (Some 128) None [] [],
        Reflection 3 ''Widget'' (Some 64) (Some ''Function'') []
          [Reflection 4 ''Widget'' (Some 4096) None [] []],
        Reflection 4 ''Widget'' (Some 4096) None [] []]"
    by (simp only: f)
  from t have "length (findByName id (load ''docs/typedoc.json'' collision_tree) ''Widget'' True)
      = length (filter (\<lambda>n. name n = ''Widget'') (nodes collision_tree))"
    by (elim conjE)
  then have b: "length (findByName id (load ''docs/typedoc.json'' collision_tree) ''Widget'' True) = 3"
    by (simp add: f)
  from h a b show ?thesis by (intro conjI)
qed












lemma is_ascii_append: "is_ascii (s @ t) \<longleftrightarrow> is_ascii s \<and> is_ascii t"
  by (simp add: is_ascii_def)







section \<open>The kind index\<close>

lemma getOrEmpty_Cons:
  "getOrEmpty (e # m) k = (if fst e = k then snd e else getOrEmpty m k)"
  by (cases e) (simp add: getOrEmpty_def Map_get_def)

lemma bucketSizes_update:
  "bucketSizes (AList.update k (getOrEmpty m k @ [i]) m) = Suc (bucketSizes m)"
proof (induction m)
  case Nil
  then show ?case by (simp add: bucketSizes_def getOrEmpty_def Map_get_def)
next
  case (Cons e m)
  obtain k' v' where e: "e = (k', v')" by (cases e)
  show ?case
  proof (cases "k' = k")
    case True
    then show ?thesis by (simp add: e getOrEmpty_Cons bucketSizes_def)
  next
    case False
    with Cons.IH show ?thesis by (simp add: e getOrEmpty_Cons bucketSizes_def)
  qed
qed

lemma bucketSizes_addToBucket: "bucketSizes (addToBucket m k i) = Suc (bucketSizes m)"
  by (simp add: addToBucket_def Map_set_def bucketSizes_update)

lemma kindIndex_visitAll_sizes:
  "bucketSizes (kindIndex (visitAll tr p)) =
     bucketSizes (kindIndex p)
     + length (filter (\<lambda>n. \<exists>k. kind n = Some k \<and> k \<noteq> 0) (map fst tr))"
proof (induction tr arbitrary: p)
  case Nil
  then show ?case by (simp add: visitAll_Nil)
next
  case (Cons x tr)
  obtain n fp where x: "x = (n, fp)" by (cases x)
  show ?case
    by (simp add: x visitAll_Cons Cons.IH kindIndex_indexNode bucketSizes_addToBucket
        split: option.splits)
qed

lemma kindIndex_visitAll_bucket:
  "getOrEmpty (kindIndex (visitAll tr p)) k =
     getOrEmpty (kindIndex p) k
     @ map id_r (filter (\<lambda>n. kind n = Some k \<and> k \<noteq> 0) (map fst tr))"
proof (induction tr arbitrary: p)
  case Nil
  then show ?case by (simp add: visitAll_Nil)
next
  case (Cons x tr)
  obtain n fp where x: "x = (n, fp)" by (cases x)
  show ?case
    by (simp add: x visitAll_Cons Cons.IH kindIndex_indexNode getOrEmpty_addToBucket
        split: option.splits)
qed

text \<open>
  Claim C6, as the code has it. \<open>buildIndex\<close> appends a node's id to the bucket of its
  kind exactly when the kind is there and is not 0, the test being \<^verbatim>\<open>if (node.kind)\<close>.
  After a load the bucket of a kind lists the ids of the nodes of that non-zero kind in
  traversal order, and the sizes of all buckets add up to the number of visited nodes
  whose kind is present and not 0.
\<close>

theorem kind_index_truthy:
  "kindIndex (indexNode node fullPath p) =
     (case kind node of
        None \<Rightarrow> kindIndex p
      | Some k \<Rightarrow> if k \<noteq> 0 then addToBucket (kindIndex p) k (id_r node) else kindIndex p)
   \<and> getOrEmpty (kindIndex (load dp root)) k' =
       map id_r (filter (\<lambda>n. kind n = Some k' \<and> k' \<noteq> 0) (nodes root))
   \<and> bucketSizes (kindIndex (load dp root)) =
       length (filter (\<lambda>n. \<exists>k. kind n = Some k \<and> k \<noteq> 0) (nodes root))"
proof -
  let ?p0 = "(new_TypeDocParser dp)\<lparr>doc := Some root\<rparr>"
  have e: "getOrEmpty (kindIndex ?p0) k' = []"
    by (simp add: new_TypeDocParser_def getOrEmpty_def Map_get_def)
  have z: "bucketSizes (kindIndex ?p0) = 0"
    by (simp add: new_TypeDocParser_def bucketSizes_def)
  have b: "getOrEmpty (kindIndex (load dp root)) k' =
       map id_r (filter (\<lambda>n. kind n = Some k' \<and> k' \<noteq> 0) (nodes root))"
    using e by (simp only: load_eq kindIndex_visitAll_bucket map_fst_traversal append_Nil)
  have s: "bucketSizes (kindIndex (load dp root)) =
       length (filter (\<lambda>n. \<exists>k. kind n = Some k \<and> k \<noteq> 0) (nodes root))"
    using z by (simp only: load_eq kindIndex_visitAll_sizes map_fst_traversal add_0)
  from kindIndex_indexNode [of node fullPath p] b s show ?thesis by (intro conjI)
qed

theorem kind_index_truthy_witness:
  "getOrEmpty (kindIndex (load ''docs/typedoc.json'' collision_tree)) 128 = [2]
   \<and> bucketSizes (kindIndex (load ''docs/typedoc.json'' collision_tree)) = 4"
proof -
  note t = kind_index_truthy [of collision_tree "''Lib''" "new_TypeDocParser ''docs/typedoc.json''"
      "''docs/typedoc.json''" collision_tree 128]
  from t have "getOrEmpty (kindIndex (load ''docs/typedoc.json'' collision_tree)) 128 =
       map id_r (filter (\<lambda>n. kind n = Some 128 \<and> (128::int) \<noteq> 0) (nodes collision_tree))"
    by (elim conjE)
  moreover from t have "bucketSizes (kindIndex (load ''docs/typedoc.json'' collision_tree)) =
       length (filter (\<lambda>n. \<exists>k. kind n = Some k \<and> k \<noteq> 0) (nodes collision_tree))"
    by (elim conjE)
  ultimately show ?thesis by (simp add: collision_tree_def)
qed

text \<open>
  Claim C6, as the claim has it, fails on a node whose kind is the number 0: the kind is
  present, no bucket receives the id, and the bucket sizes add up to 0 while one node
  carries a defined kind.
\<close>

theorem kind_index_present_counterexample:
  "kind zero_kind_tree = Some 0
   \<and> kindIndex (load ''docs/typedoc.json'' zero_kind_tree) = []
   \<and> bucketSizes (kindIndex (load ''docs/typedoc.json'' zero_kind_tree))
       \<noteq> length (filter (\<lambda>n. kind n \<noteq> None) (nodes zero_kind_tree))"
  by (simp add: zero_kind_tree_def load_def parse_def new_TypeDocParser_def indexNode_def
      Let_def fullPathOf_def bucketSizes_def)

section \<open>Lookup by id\<close>

lemma distinct_keys_index_load: "distinct (map fst (index (load dp root)))"
  by (simp add: index_load distinct_fold_update)

lemma keys_index_load: "fst ` set (index (load dp root)) = id_r ` set (nodes root)"
proof -
  have "fst ` set (index (load dp root)) = (\<lambda>x. id_r (fst x)) ` set (traversal root [])"
    by (simp add: index_load keys_fold_update)
  also have "\<dots> = id_r ` set (map fst (traversal root []))"
    by (simp add: image_image)
  finally show ?thesis by (simp only: map_fst_traversal)
qed

lemma last_filter_split:
  assumes "xs = as @ x # bs" and "P x" and "\<forall>z \<in> set bs. \<not> P z"
  shows "last (filter P xs) = x"
proof -
  have "filter P bs = []" using assms(3) by (simp add: filter_empty_conv)
  with assms(1,2) show ?thesis by simp
qed

lemma getById_load:
  "getById (load dp root) i =
     (if i \<in> id_r ` set (nodes root)
      then Some (last (filter (\<lambda>n. id_r n = i) (nodes root))) else None)"
proof (cases "i \<in> id_r ` set (nodes root)")
  case False
  then have "i \<notin> fst ` set (index (load dp root))" by (simp add: keys_index_load)
  then have "map_of (index (load dp root)) i = None" by (simp add: map_of_eq_None_iff)
  with False show ?thesis by (simp add: getById_def Map_get_def)
next
  case True
  then have "\<exists>n \<in> set (nodes root). id_r n = i" by auto
  then obtain as n bs where d: "nodes root = as @ n # bs" "id_r n = i"
      "\<forall>z \<in> set bs. id_r z \<noteq> i"
    using split_list_last_prop [of "nodes root" "\<lambda>n. id_r n = i"] by blast
  have l: "last (filter (\<lambda>n. id_r n = i) (nodes root)) = n"
    using d by (intro last_filter_split [where as = as and bs = bs]) auto
  have "map fst (traversal root []) = as @ n # bs"
    using d(1) by (simp only: map_fst_traversal)
  then obtain tas x tbs where t: "traversal root [] = tas @ x # tbs" "fst x = n" "map fst tbs = bs"
    by (auto simp: map_eq_append_conv map_eq_Cons_conv)
  have "(\<lambda>x. id_r (fst x)) x \<notin> (\<lambda>x. id_r (fst x)) ` set tbs"
  proof
    assume "id_r (fst x) \<in> (\<lambda>x. id_r (fst x)) ` set tbs"
    then obtain y where "y \<in> set tbs" "id_r (fst y) = id_r (fst x)" by auto
    then have "fst y \<in> set (map fst tbs)" "id_r (fst y) = i" using t(2) d(2) by auto
    with t(3) d(3) show False by auto
  qed
  from map_of_fold_update_last [OF t(1) this, of fst "[]"]
  have "map_of (index (load dp root)) i = Some n"
    using t(2) d(2) by (simp add: index_load)
  with True l show ?thesis by (simp add: getById_def Map_get_def)
qed

text \<open>
  Claim C9. \<open>getById\<close> is a total function with two result shapes: \<open>None\<close> exactly when
  the id is not a key of the ID index, and otherwise \<open>Some\<close> of the reflection stored
  under that id, as it was stored. After a load that reflection is the node of the tree
  indexed last under the id (the only one when ids are distinct), and ids that no node
  of the tree has give \<open>None\<close>.
\<close>

theorem getById_total:
  "(getById p i = None \<longleftrightarrow> i \<notin> fst ` set (index p))
   \<and> (\<forall>r. getById p i = Some r \<longrightarrow> (i, r) \<in> set (index p))
   \<and> getById (load dp root) j =
       (if j \<in> id_r ` set (nodes root)
        then Some (last (filter (\<lambda>n. id_r n = j) (nodes root))) else None)"
proof -
  have a: "getById p i = None \<longleftrightarrow> i \<notin> fst ` set (index p)"
    by (simp add: getById_def Map_get_def map_of_eq_None_iff)
  have b: "\<forall>r. getById p i = Some r \<longrightarrow> (i, r) \<in> set (index p)"
    by (simp add: getById_def Map_get_def map_of_SomeD)
  from a b getById_load [of dp root j] show ?thesis by (intro conjI)
qed

theorem getById_total_witness:
  "getById (load ''docs/typedoc.json'' lib_tree) 3 =
     Some (Reflection 3 ''render'' (Some 2048) None [] [])
   \<and> getById (load ''docs/typedoc.json'' lib_tree) 7 = None
   \<and> (3, Reflection 3 ''render'' (Some 2048) None [] [])
       \<in> set (index (load ''docs/typedoc.json'' lib_tree))"
proof -
  let ?P = "load ''docs/typedoc.json'' lib_tree"
  let ?r = "Reflection 3 ''render'' (Some 2048) None [] []"
  from getById_total [of ?P 3 "''docs/typedoc.json''" lib_tree 3]
  have a: "getById ?P 3 = Some ?r" and s: "\<forall>r. getById ?P 3 = Some r \<longrightarrow> (3, r) \<in> set (index ?P)"
    by (simp_all add: lib_tree_def)
  from getById_total [of ?P 3 "''docs/typedoc.json''" lib_tree 7]
  have b: "getById ?P 7 = None"
    by (simp add: lib_tree_def)
  from s a have "(3, ?r) \<in> set (index ?P)" by blast
  with a b show ?thesis by (intro conjI)
qed

section \<open>Statistics\<close>

text \<open>
  Claim C7. In every state of the parser \<open>getStats\<close> returns the size of the ID index as
  the total and the lengths of the kind-index buckets 128, 256, 64, 32, 2097152, 8 and 2
  (class, interface, function, variable, type alias, enum, module) as the seven counts,
  a missing bucket counting 0; nothing else is read. Before any load every field is 0;
  after a load the total is the number of ids in the tree and the class count is the
  number of visited nodes of kind 128.
\<close>

theorem getStats_derived:
  "getStats p =
     \<lparr>total_s = Map_size (index p),
      classes = length (getOrEmpty (kindIndex p) 128),
      interfaces = length (getOrEmpty (kindIndex p) 256),
      functions_s = length (getOrEmpty (kindIndex p) 64),
      variables = length (getOrEmpty (kindIndex p) 32),
      types = length (getOrEmpty (kindIndex p) 2097152),
      enums = length (getOrEmpty (kindIndex p) 8),
      modules = length (getOrEmpty (kindIndex p) 2)\<rparr>
   \<and> getStats (new_TypeDocParser dp) =
       \<lparr>total_s = 0, classes = 0, interfaces = 0, functions_s = 0, variables = 0,
        types = 0, enums = 0, modules = 0\<rparr>
   \<and> total_s (getStats (load dp root)) = card (id_r ` set (nodes root))
   \<and> classes (getStats (load dp root)) = length (filter (\<lambda>n. kind n = Some 128) (nodes root))"
proof -
  have len: "bucketLength q k = length (getOrEmpty (kindIndex q) (kind_value k))" for q k
    by (simp add: bucketLength_def getOrEmpty_def split: option.splits)
  have a: "getStats p =
     \<lparr>total_s = Map_size (index p),
      classes = length (getOrEmpty (kindIndex p) 128),
      interfaces = length (getOrEmpty (kindIndex p) 256),
      functions_s = length (getOrEmpty (kindIndex p) 64),
      variables = length (getOrEmpty (kindIndex p) 32),
      types = length (getOrEmpty (kindIndex p) 2097152),
      enums = length (getOrEmpty (kindIndex p) 8),
      modules = length (getOrEmpty (kindIndex p) 2)\<rparr>"
    by (simp add: getStats_def len)
  have b: "getStats (new_TypeDocParser dp) =
       \<lparr>total_s = 0, classes = 0, interfaces = 0, functions_s = 0, variables = 0,
        types = 0, enums = 0, modules = 0\<rparr>"
    by (simp add: getStats_def bucketLength_def new_TypeDocParser_def Map_size_def Map_get_def)
  have "total_s (getStats (load dp root)) = length (map fst (index (load dp root)))"
    by (simp add: getStats_def Map_size_def)
  also have "\<dots> = card (set (map fst (index (load dp root))))"
    using distinct_keys_index_load [of dp root] by (simp only: distinct_card)
  also have "\<dots> = card (id_r ` set (nodes root))"
    by (simp add: keys_index_load)
  finally have c: "total_s (getStats (load dp root)) = card (id_r ` set (nodes root))" .
  have "getOrEmpty (kindIndex ((new_TypeDocParser dp)\<lparr>doc := Some root\<rparr>)) 128 = []"
    by (simp add: new_TypeDocParser_def getOrEmpty_def Map_get_def)
  then have "getOrEmpty (kindIndex (load dp root)) 128 =
       map id_r (filter (\<lambda>n. kind n = Some 128 \<and> (128::int) \<noteq> 0) (nodes root))"
    by (simp only: load_eq kindIndex_visitAll_bucket map_fst_traversal append_Nil)
  then have d: "classes (getStats (load dp root)) =
      length (filter (\<lambda>n. kind n = Some 128) (nodes root))"
    by (simp add: getStats_def len)
  from a b c d show ?thesis by (intro conjI)
qed

theorem getStats_derived_witness:
  "getStats (load ''docs/typedoc.json'' lib_tree) =
     \<lparr>total_s = 3, classes = 1, interfaces = 0, functions_s = 0, variables = 0,
      types = 0, enums = 0, modules = 1\<rparr>"
proof -
  let ?P = "load ''docs/typedoc.json'' lib_tree"
  have k: "kindIndex ?P = [(2, [1]), (128, [2]), (2048, [3])]"
    by (simp add: load_def parse_def new_TypeDocParser_def lib_tree_def indexNode_def Let_def
        fullPathOf_def addToBucket_def getOrEmpty_def Map_set_def Map_get_def)
  have i: "Map_size (index ?P) = 3"
    by (simp add: index_load Map_size_def lib_tree_def Let_def fullPathOf_def)
  from getStats_derived [of ?P "''docs/typedoc.json''" lib_tree]
  have "getStats ?P =
     \<lparr>total_s = Map_size (index ?P),
      classes = length (getOrEmpty (kindIndex ?P) 128),
      interfaces = length (getOrEmpty (kindIndex ?P) 256),
      functions_s = length (getOrEmpty (kindIndex ?P) 64),
      variables = length (getOrEmpty (kindIndex ?P) 32),
      types = length (getOrEmpty (kindIndex ?P) 2097152),
      enums = length (getOrEmpty (kindIndex ?P) 8),
      modules = length (getOrEmpty (kindIndex ?P) 2)\<rparr>"
    by (elim conjE)
  then show ?thesis
    by (simp only: k i) (simp add: getOrEmpty_def Map_get_def)
qed

section \<open>Queries before a load\<close>

text \<open>
  Claim C3, as the code has it. On a parser that has been constructed and has not
  loaded a document, no query raises an error: \<open>getById\<close> and \<open>findByPath\<close> return the
  not-found value, \<open>findByName\<close> (in both modes) and \<open>findByKind\<close> return the empty list,
  and \<open>getStats\<close> returns a record of zeros.
\<close>

theorem queries_before_load:
  "getById (new_TypeDocParser dp) i = None
   \<and> findByName ul (new_TypeDocParser dp) nm exact = []
   \<and> findByPath (new_TypeDocParser dp) path = None
   \<and> findByKind (new_TypeDocParser dp) k = []
   \<and> getStats (new_TypeDocParser dp) =
       \<lparr>total_s = 0, classes = 0, interfaces = 0, functions_s = 0, variables = 0,
        types = 0, enums = 0, modules = 0\<rparr>"
  by (simp add: getById_def findByName_def findByPath_def findByKind_def getStats_def
      bucketLength_def resolveIds_def getOrEmpty_def Map_get_def Map_size_def
      new_TypeDocParser_def)

theorem queries_before_load_witness:
  "findByName id (new_TypeDocParser ''typedoc.json'') ''Widget'' False = []
   \<and> findByKind (new_TypeDocParser ''typedoc.json'') 64 = []
   \<and> getById (new_TypeDocParser ''typedoc.json'') 0 = None"
proof -
  note t = queries_before_load [where dp = "''typedoc.json''" and i = 0 and ul = id
      and nm = "''Widget''" and exact = False and path = "''Lib''" and k = 64]
  from t have a: "findByName id (new_TypeDocParser ''typedoc.json'') ''Widget'' False = []"
    by (elim conjE)
  from t have b: "findByKind (new_TypeDocParser ''typedoc.json'') 64 = []"
    by (elim conjE)
  from t have c: "getById (new_TypeDocParser ''typedoc.json'') 0 = None"
    by (elim conjE)
  from a b c show ?thesis by (intro conjI)
qed

text \<open>
  Claim C3, as the claim has it, fails on a new parser: each query returns its ordinary
  empty or not-found value, which is the empty-success result the claim excludes, and
  no error is produced.
\<close>

theorem queries_before_load_counterexample:
  "getById (new_TypeDocParser ''docs/typedoc.json'') 1 = None
   \<and> findByName id (new_TypeDocParser ''docs/typedoc.json'') ''render'' True = []
   \<and> findByName id (new_TypeDocParser ''docs/typedoc.json'') ''render'' False = []
   \<and> findByPath (new_TypeDocParser ''docs/typedoc.json'') ''Lib.Widget'' = None
   \<and> findByKind (new_TypeDocParser ''docs/typedoc.json'') 128 = []
   \<and> getStats (new_TypeDocParser ''docs/typedoc.json'') =
       \<lparr>total_s = 0, classes = 0, interfaces = 0, functions_s = 0, variables = 0,
        types = 0, enums = 0, modules = 0\<rparr>"
  by (simp add: getById_def findByName_def findByPath_def findByKind_def getStats_def
      bucketLength_def resolveIds_def getOrEmpty_def Map_get_def Map_size_def
      new_TypeDocParser_def)

end
